theory Spec2Isabelle
  imports Main
begin

section \<open>Exceptions and limits of the interpreter\<close>

text \<open>
  The exceptions the program can meet. \<^verbatim>\<open>int\<close> refuses a text of more than
  \<^verbatim>\<open>sys.get_int_max_str_digits()\<close> digits, 4300 unless changed, and the program does not
  change it. \<^verbatim>\<open>read(n)\<close> refuses a count above \<^verbatim>\<open>sys.maxsize\<close>, here that of a 64-bit
  build. Exhaustion of memory elsewhere than in \<^verbatim>\<open>read(n)\<close>, and of the recursion depth,
  is outside the model.
\<close>

datatype error =
    JSONDecodeError string  \<comment> \<open>carries \<^verbatim>\<open>doc\<close>, the text that failed to parse\<close>
  | ValueError              \<comment> \<open>\<^verbatim>\<open>int()\<close> on more digits than the limit, line 32\<close>
  | OverflowError           \<comment> \<open>\<^verbatim>\<open>read(n)\<close> with \<open>n\<close> above \<^verbatim>\<open>sys.maxsize\<close>, line 37\<close>
  | MemoryError             \<comment> \<open>\<^verbatim>\<open>read(n)\<close> refused the memory it asks for, line 37\<close>
  | BrokenPipeError         \<comment> \<open>writing to a child that has gone, lines 18-19\<close>
  | EOFError                \<comment> \<open>\<^verbatim>\<open>input()\<close> at the end of the user's input\<close>

definition int_max_str_digits :: nat where
  "int_max_str_digits = 4300"

definition sys_maxsize :: int where
  "sys_maxsize = 2 ^ 63 - 1"

section \<open>Python strings\<close>

text \<open>
  The client opens the child process with \<^verbatim>\<open>text=True\<close>, so everything it writes and
  reads is a Python \<^verbatim>\<open>str\<close>. A \<^verbatim>\<open>str\<close> is modelled as a \<^typ>\<open>string\<close> whose
  characters are read as the code points 0..255. The functions below are the
  \<^verbatim>\<open>str\<close> methods and built-ins that \<^verbatim>\<open>src/mcp_client.py\<close> calls, restricted to
  that range of code points.
\<close>

abbreviation CR :: char where "CR \<equiv> CHR 0x0D"
abbreviation LF :: char where "LF \<equiv> CHR 0x0A"
abbreviation CRLF :: string where "CRLF \<equiv> [CR, LF]"

definition is_space :: "char \<Rightarrow> bool" where
  \<comment> \<open>\<^verbatim>\<open>str.isspace\<close>: TAB..CR, FS..US, space, NEL and NBSP.\<close>
  "is_space c =
     (let n = (of_char c :: nat)
      in (9 \<le> n \<and> n \<le> 13) \<or> (28 \<le> n \<and> n \<le> 32) \<or> n = 133 \<or> n = 160)"

definition strip :: "string \<Rightarrow> string" where
  \<comment> \<open>\<^verbatim>\<open>str.strip()\<close>: leading and trailing whitespace removed.\<close>
  "strip s = rev (dropWhile is_space (rev (dropWhile is_space s)))"

definition lower_char :: "char \<Rightarrow> char" where
  "lower_char c =
     (let n = (of_char c :: nat)
      in if (65 \<le> n \<and> n \<le> 90) \<or> (192 \<le> n \<and> n \<le> 222 \<and> n \<noteq> 215)
         then char_of (n + 32) else c)"

definition lower :: "string \<Rightarrow> string" where
  \<comment> \<open>\<^verbatim>\<open>str.lower()\<close>\<close>
  "lower s = map lower_char s"

definition startswith :: "string \<Rightarrow> string \<Rightarrow> bool" where
  \<comment> \<open>\<^verbatim>\<open>s.startswith(p)\<close>, written \<open>startswith p s\<close>.\<close>
  "startswith p s = (take (length p) s = p)"

definition is_digit :: "char \<Rightarrow> bool" where
  \<comment> \<open>the characters \<^verbatim>\<open>\d\<close> matches among the code points 0..255\<close>
  "is_digit c = (let n = (of_char c :: nat) in 48 \<le> n \<and> n \<le> 57)"

definition digit_val :: "char \<Rightarrow> nat" where
  "digit_val c = of_char c - 48"

definition int_of_digits :: "string \<Rightarrow> nat" where
  \<comment> \<open>the number a run of decimal digits denotes; Python integers are unbounded\<close>
  "int_of_digits ds = foldl (\<lambda>a c. 10 * a + digit_val c) 0 ds"

definition py_int :: "string \<Rightarrow> error + nat" where
  \<comment> \<open>\<^verbatim>\<open>int(ds)\<close> on a run of decimal digits: leading zeros count towards the limit\<close>
  "py_int ds =
     (if int_max_str_digits < length ds then Inl ValueError else Inr (int_of_digits ds))"

fun str_nat :: "nat \<Rightarrow> string" where
  \<comment> \<open>\<^verbatim>\<open>str(n)\<close> for \<open>n \<ge> 0\<close>, as the f-string of line 17 formats \<^verbatim>\<open>len(raw)\<close>.\<close>
  "str_nat n =
     (if n < 10 then [char_of (48 + n)]
      else str_nat (n div 10) @ [char_of (48 + n mod 10)])"

declare str_nat.simps [simp del]

definition str_int :: "int \<Rightarrow> string" where
  "str_int i = (if i < 0 then CHR ''-'' # str_nat (nat (- i)) else str_nat (nat i))"

definition match_content_length :: "string \<Rightarrow> string option" where
  \<comment> \<open>\<^verbatim>\<open>re.match(r"Content-Length: (\d+)", line)\<close>: the match is anchored at the start of
     the line, the group is the longest run of digits after the prefix (the
     quantifier is greedy and nothing follows it), and there is no match when that run
     is empty. The result is \<^verbatim>\<open>m.group(1)\<close>.\<close>
  "match_content_length line =
     (if startswith ''Content-Length: '' line
      then (let ds = takeWhile is_digit (drop 16 line)
            in if ds = [] then None else Some ds)
      else None)"

section \<open>JSON values\<close>

text \<open>
  The values \<^verbatim>\<open>json.loads\<close> returns and \<^verbatim>\<open>json.dumps\<close> accepts: \<^verbatim>\<open>None\<close>, booleans,
  integers, strings, lists and dictionaries with string keys (an association list in
  insertion order). Floating-point numbers are left out.

  \<^verbatim>\<open>json.dumps\<close> and \<^verbatim>\<open>json.loads\<close> belong to the Python standard library, not to this
  program, so the model takes them as parameters: \<open>dumps :: json \<Rightarrow> string\<close> and
  \<open>loads :: string \<Rightarrow> json option\<close>, where \<open>None\<close> stands for the
  \<^verbatim>\<open>json.JSONDecodeError\<close> that \<^verbatim>\<open>json.loads\<close> raises on a text that is not JSON.
\<close>

datatype json =
    JNull
  | JBool bool
  | JInt int
  | JString string
  | JArray "json list"
  | JObject "(string \<times> json) list"

datatype 'a outcome =
    Returns 'a
  | Raises error
  | Hangs                   \<comment> \<open>the call never returns\<close>

section \<open>The child process\<close>

text \<open>
  \<^verbatim>\<open>proc\<close> (lines 6-13) is seen through its two pipes. \<open>stdin\<close> is all the text the
  program has passed to \<^verbatim>\<open>proc.stdin.write\<close> so far, the text of a write that failed
  included. \<open>accepts\<close> is the number of writes the child still takes before it is gone;
  a write after that raises \<^verbatim>\<open>BrokenPipeError\<close>. \<open>stdout\<close> is the text \<^verbatim>\<open>proc.stdout\<close> has
  still to deliver, as its text layer delivers it (decoded, newlines translated), after
  which the stream is at its end: \<^verbatim>\<open>readline()\<close> and \<^verbatim>\<open>read()\<close> then return the empty
  string. The stream always ends: a child that stays silent without closing its output,
  on which the reads would block, is outside the model.

  Whether the machine grants \<^verbatim>\<open>read(n)\<close> the memory it asks for is a fact of the
  environment as well: it is the parameter \<open>room :: nat \<Rightarrow> bool\<close> of the functions below.
\<close>

record popen =
  stdin :: string
  stdout :: string
  accepts :: nat

fun readline :: "string \<Rightarrow> string \<times> string" where
  \<comment> \<open>\<^verbatim>\<open>proc.stdout.readline()\<close>: the line up to and including its \<open>LF\<close>, or what is left
     when no \<open>LF\<close> follows; the second component is the rest of the stream.\<close>
  "readline [] = ([], [])"
| "readline (c # cs) =
     (if c = LF then ([c], cs) else (case readline cs of (l, r) \<Rightarrow> (c # l, r)))"

fun universal_newlines :: "string \<Rightarrow> string" where
  \<comment> \<open>What the text layer of \<^verbatim>\<open>proc.stdout\<close> makes of the characters the child wrote:
     \<open>CR LF\<close> and a lone \<open>CR\<close> both become \<open>LF\<close>.\<close>
  "universal_newlines [] = []"
| "universal_newlines [c] = [if c = CR then LF else c]"
| "universal_newlines (c # d # cs) =
     (if c = CR \<and> d = LF then LF # universal_newlines cs
      else (if c = CR then LF else c) # universal_newlines (d # cs))"

datatype event =
    Banner                  \<comment> \<open>lines 40-41\<close>
  | Prompt_method           \<comment> \<open>line 45\<close>
  | Prompt_params           \<comment> \<open>line 49\<close>
  | Notice_invalid_json     \<comment> \<open>line 53\<close>
  | Got_line string         \<comment> \<open>line 25\<close>
  | Print_response json     \<comment> \<open>line 60\<close>

section \<open>\<^verbatim>\<open>send_request\<close>\<close>

definition encode :: "(json \<Rightarrow> string) \<Rightarrow> json \<Rightarrow> string" where
  \<comment> \<open>lines 16-18: the text written to \<^verbatim>\<open>proc.stdin\<close>\<close>
  "encode dumps request =
     (let raw = dumps request;
          header = ''Content-Length: '' @ str_nat (length raw) @ CRLF @ CRLF
      in header @ raw)"

definition header_update :: "string \<Rightarrow> nat option \<Rightarrow> error + nat option" where
  \<comment> \<open>lines 29-32, on the stripped line: the new \<^verbatim>\<open>content_length\<close>, or the error of
     \<^verbatim>\<open>int\<close>\<close>
  "header_update line content_length =
     (if startswith ''Content-Length'' line
      then (case match_content_length line of
              Some ds \<Rightarrow>
                (case py_int ds of Inl e \<Rightarrow> Inl e | Inr n \<Rightarrow> Inr (Some n))
            | None \<Rightarrow> Inr content_length)
      else Inr content_length)"

partial_function (option) read_headers ::
  "string \<Rightarrow> nat option \<Rightarrow> event list
     \<Rightarrow> (string \<times> event list \<times> (error + nat option)) option" where
  \<comment> \<open>lines 23-34. \<open>None\<close>: the loop never ends. Otherwise the text left unread, what was
     printed, and either the error raised on line 32 or \<^verbatim>\<open>content_length\<close> at the
     \<^verbatim>\<open>break\<close>.\<close>
  "read_headers s content_length log =
     (case readline s of (line, rest) \<Rightarrow>
        (let log' = log @ [Got_line (strip line)]
         in if line = [] then read_headers rest content_length log'
            else (let line' = strip line
                  in case header_update line' content_length of
                       Inl e \<Rightarrow> Some (rest, log', Inl e)
                     | Inr content_length' \<Rightarrow>
                         if line' = [] then Some (rest, log', Inr content_length')
                         else read_headers rest content_length' log')))"

declare read_headers.simps [code]

definition read_body ::
  "(nat \<Rightarrow> bool) \<Rightarrow> nat option \<Rightarrow> string \<Rightarrow> error + string \<times> string" where
  \<comment> \<open>line 37, \<^verbatim>\<open>proc.stdout.read(content_length)\<close>: \<^verbatim>\<open>read(None)\<close> reads to the end of the
     stream. \<^verbatim>\<open>read(n)\<close> raises \<^verbatim>\<open>OverflowError\<close> when \<open>n\<close> is above \<^verbatim>\<open>sys.maxsize\<close>, before
     it reads anything, and \<^verbatim>\<open>MemoryError\<close> when the machine has no room for it; otherwise
     it reads \<open>n\<close> characters, or fewer when the stream ends first.\<close>
  "read_body room content_length s =
     (case content_length of
        None \<Rightarrow> Inr (s, [])
      | Some n \<Rightarrow>
          if sys_maxsize < int n then Inl OverflowError
          else if \<not> room n then Inl MemoryError
          else Inr (take n s, drop n s))"

definition decode ::
  "(nat \<Rightarrow> bool) \<Rightarrow> (string \<Rightarrow> json option) \<Rightarrow> string
     \<Rightarrow> string \<times> event list \<times> json outcome" where
  \<comment> \<open>lines 21-38, as a function of the text \<^verbatim>\<open>proc.stdout\<close> has to deliver. The result is
     the text left unread, what was printed, and how the call ends. A call that hangs
     prints without end; its first two components carry no information. Nor does the
     first after a \<^verbatim>\<open>MemoryError\<close>: nothing reads the stream after a call that raised.\<close>
  "decode room loads s =
     (case read_headers s None [] of
        None \<Rightarrow> (s, [], Hangs)
      | Some (rest, log, Inl e) \<Rightarrow> (rest, log, Raises e)
      | Some (rest, log, Inr content_length) \<Rightarrow>
          (case read_body room content_length rest of
             Inl e \<Rightarrow> (rest, log, Raises e)
           | Inr (body, rest') \<Rightarrow>
               (case loads body of
                  None \<Rightarrow> (rest', log, Raises (JSONDecodeError body))
                | Some v \<Rightarrow> (rest', log, Returns v))))"

definition send_request ::
  "(json \<Rightarrow> string) \<Rightarrow> (string \<Rightarrow> json option) \<Rightarrow> (nat \<Rightarrow> bool) \<Rightarrow> json \<Rightarrow> popen
     \<Rightarrow> popen \<times> event list \<times> json outcome" where
  \<comment> \<open>lines 15-38\<close>
  "send_request dumps loads room request proc =
     (let proc1 = proc\<lparr>stdin := stdin proc @ encode dumps request\<rparr>
      in if accepts proc1 = 0 then (proc1, [], Raises BrokenPipeError)
         else
           (let proc2 = proc1\<lparr>accepts := accepts proc1 - 1\<rparr>
            in case decode room loads (stdout proc2) of
                 (rest, log, res) \<Rightarrow> (proc2\<lparr>stdout := rest\<rparr>, log, res)))"

section \<open>The interactive loop\<close>

text \<open>
  The state of lines 40-62: the counter \<^verbatim>\<open>req_id\<close>, the child process, and what has been
  printed. \<open>sent\<close> is a history variable, not a variable of the program: the requests
  passed to \<^verbatim>\<open>send_request\<close>, in order. The user's input is the list of the lines that
  successive calls of \<^verbatim>\<open>input()\<close> return; \<^verbatim>\<open>input()\<close> raises \<^verbatim>\<open>EOFError\<close> when none is
  left.
\<close>

record session =
  req_id :: int
  proc :: popen
  console :: "event list"
  sent :: "json list"

datatype ending =
    Exited                  \<comment> \<open>the loop was left by \<^verbatim>\<open>break\<close> and line 62 ran\<close>
  | Crashed error           \<comment> \<open>an exception nobody caught ended the process\<close>
  | Hung                    \<comment> \<open>a call of \<^verbatim>\<open>send_request\<close> never returned\<close>

definition make_request :: "int \<Rightarrow> string \<Rightarrow> json \<Rightarrow> json" where
  \<comment> \<open>line 56\<close>
  "make_request i method params =
     JObject [(''id'', JInt i), (''method'', JString method), (''params'', params)]"

definition parse_params :: "(string \<Rightarrow> json option) \<Rightarrow> string \<Rightarrow> json option" where
  \<comment> \<open>line 51; \<open>None\<close> is the \<^verbatim>\<open>json.JSONDecodeError\<close> caught on line 52\<close>
  "parse_params loads params_str = (if params_str \<noteq> [] then loads params_str else Some (JObject []))"

fun main_loop ::
  "(json \<Rightarrow> string) \<Rightarrow> (string \<Rightarrow> json option) \<Rightarrow> (nat \<Rightarrow> bool) \<Rightarrow> string list
     \<Rightarrow> session \<Rightarrow> session \<times> ending" where
  \<comment> \<open>lines 44-62\<close>
  "main_loop dumps loads room [] st =
     (st\<lparr>console := console st @ [Prompt_method]\<rparr>, Crashed EOFError)"
| "main_loop dumps loads room [m] st =
     (if lower (strip m) \<in> {''exit'', ''quit''}
      then (st\<lparr>console := console st @ [Prompt_method]\<rparr>, Exited)
      else (st\<lparr>console := console st @ [Prompt_method, Prompt_params]\<rparr>, Crashed EOFError))"
| "main_loop dumps loads room (m # p # ins) st =
     (let method = strip m
      in if lower method \<in> {''exit'', ''quit''}
         then (st\<lparr>console := console st @ [Prompt_method]\<rparr>, Exited)
         else
           (let st1 = st\<lparr>console := console st @ [Prompt_method, Prompt_params]\<rparr>
            in case parse_params loads (strip p) of
                 None \<Rightarrow>
                   main_loop dumps loads room ins
                     (st1\<lparr>console := console st1 @ [Notice_invalid_json]\<rparr>)
               | Some params \<Rightarrow>
                   (let request = make_request (req_id st1) method params;
                        st2 = st1\<lparr>req_id := req_id st1 + 1, sent := sent st1 @ [request]\<rparr>
                    in case send_request dumps loads room request (proc st2) of
                         (proc', log, Returns resp) \<Rightarrow>
                           main_loop dumps loads room ins
                             (st2\<lparr>proc := proc',
                                  console := console st2 @ log @ [Print_response resp]\<rparr>)
                       | (proc', log, Raises e) \<Rightarrow>
                           (st2\<lparr>proc := proc', console := console st2 @ log\<rparr>, Crashed e)
                       | (proc', log, Hangs) \<Rightarrow>
                           (st2\<lparr>proc := proc'\<rparr>, Hung))))"

definition start :: "string \<Rightarrow> nat \<Rightarrow> session" where
  \<comment> \<open>lines 6-13 and 40-43: the child will deliver \<open>out\<close> and take \<open>k\<close> writes; nothing is
     written yet\<close>
  "start out k =
     \<lparr>req_id = 1, proc = \<lparr>stdin = [], stdout = out, accepts = k\<rparr>, console = [Banner],
      sent = []\<rparr>"

definition request_id :: "json \<Rightarrow> int option" where
  \<comment> \<open>the value under the key \<^verbatim>\<open>"id"\<close> of a request\<close>
  "request_id r =
     (case r of
        JObject kvs \<Rightarrow> (case map_of kvs ''id'' of Some (JInt i) \<Rightarrow> Some i | _ \<Rightarrow> None)
      | _ \<Rightarrow> None)"

text \<open>
  The invariant of the loop: the requests passed to \<^verbatim>\<open>send_request\<close> so far carry the
  ids 1, 2, ... in order, \<^verbatim>\<open>req_id\<close> is the next one, and what has been written to
  \<^verbatim>\<open>proc.stdin\<close> is the frames of those requests, one after the other.
\<close>

definition ids_in_order :: "(json \<Rightarrow> string) \<Rightarrow> session \<Rightarrow> bool" where
  "ids_in_order dumps st =
     (map request_id (sent st) = map (\<lambda>k. Some (int k)) [1..<Suc (length (sent st))]
      \<and> req_id st = int (length (sent st)) + 1
      \<and> stdin (proc st) = concat (map (encode dumps) (sent st)))"

section \<open>Describing streams\<close>

text \<open>
  The vocabulary in which the theorems describe what the child sends. \<open>readlines s\<close>
  cuts a text into the lines that successive calls of \<^verbatim>\<open>readline()\<close> deliver. A full
  line ends with its only \<open>LF\<close>. A stripped line is overlong when line 32 raises on it:
  it matches the pattern of line 30 with more digits than \<^verbatim>\<open>int\<close> converts. A header block
  is a list of full lines that are neither blank nor overlong, closed by a full line
  that is blank; the length it declares is what lines 29-32 leave in
  \<^verbatim>\<open>content_length\<close> after the last of its lines. \<open>granted room n\<close> says that \<^verbatim>\<open>read(n)\<close>
  is let through: \<open>n\<close> is no more than \<^verbatim>\<open>sys.maxsize\<close> and the machine has room for it.
  \<open>ample\<close> is a machine with room for every count.
\<close>

fun readlines :: "string \<Rightarrow> string list" where
  "readlines [] = []"
| "readlines (c # cs) =
     (if c = LF then [c] # readlines cs
      else (case readlines cs of [] \<Rightarrow> [[c]] | l # ls \<Rightarrow> (c # l) # ls))"

definition full_line :: "string \<Rightarrow> bool" where
  "full_line l = (l \<noteq> [] \<and> last l = LF \<and> LF \<notin> set (butlast l))"

definition overlong :: "string \<Rightarrow> bool" where
  "overlong line =
     (startswith ''Content-Length'' line
      \<and> (case match_content_length line of
            Some ds \<Rightarrow> int_max_str_digits < length ds
          | None \<Rightarrow> False))"

definition header_block :: "string list \<Rightarrow> string \<Rightarrow> bool" where
  "header_block hs b =
     (list_all (\<lambda>h. full_line h \<and> strip h \<noteq> [] \<and> \<not> overlong (strip h)) hs
      \<and> full_line b \<and> strip b = [])"

definition next_length :: "nat option \<Rightarrow> string \<Rightarrow> nat option" where
  \<comment> \<open>\<^verbatim>\<open>content_length\<close> after lines 29-32 on the line \<open>h\<close>, when they do not raise\<close>
  "next_length cl h = (case header_update (strip h) cl of Inr cl' \<Rightarrow> cl' | Inl e \<Rightarrow> cl)"

definition declared_length :: "string list \<Rightarrow> nat option" where
  "declared_length hs = foldl next_length None hs"

definition granted :: "(nat \<Rightarrow> bool) \<Rightarrow> nat \<Rightarrow> bool" where
  "granted room n = (int n \<le> sys_maxsize \<and> room n)"

definition ample :: "nat \<Rightarrow> bool" where
  "ample n = True"

definition got_lines :: "string list \<Rightarrow> event list" where
  "got_lines ls = map (\<lambda>l. Got_line (strip l)) ls"

fun scan_lines ::
  "string list \<Rightarrow> nat option \<Rightarrow> event list
     \<Rightarrow> (string \<times> event list \<times> (error + nat option)) option" where
  "scan_lines [] cl log = None"
| "scan_lines (l # ls) cl log =
     (let log' = log @ [Got_line (strip l)]
      in case header_update (strip l) cl of
           Inl e \<Rightarrow> Some (concat ls, log', Inl e)
         | Inr cl' \<Rightarrow>
             if strip l = [] then Some (concat ls, log', Inr cl') else scan_lines ls cl' log')"

section \<open>A reference JSON library\<close>

text \<open>
  An instance of the two library functions, used where a theorem is applied to a
  concrete input. \<open>dumps_ref\<close> prints as \<^verbatim>\<open>json.dumps\<close> does with its default
  arguments (separators \<^verbatim>\<open>", "\<close> and \<^verbatim>\<open>": "\<close>, every character outside the printable
  ASCII range escaped). \<open>loads_ref\<close> covers the texts without floating-point numbers
  (no fraction, no exponent, no \<^verbatim>\<open>NaN\<close> or \<^verbatim>\<open>Infinity\<close>) and without hexadecimal escapes
  above 255: on these it returns the value \<^verbatim>\<open>json.loads\<close> returns, and \<open>None\<close> where
  \<^verbatim>\<open>json.loads\<close> raises \<^verbatim>\<open>JSONDecodeError\<close>. The recursion of the parser is bounded by a
  counter that starts above the length of the text.
\<close>

abbreviation DQ :: char where "DQ \<equiv> CHR 0x22"
abbreviation BSL :: char where "BSL \<equiv> CHR 0x5C"

definition hex_digit :: "nat \<Rightarrow> char" where
  "hex_digit n = (if n < 10 then char_of (48 + n) else char_of (87 + n))"

definition escape_char :: "char \<Rightarrow> string" where
  "escape_char c =
     (let n = (of_char c :: nat)
      in if c = DQ then [BSL, DQ]
         else if c = BSL then [BSL, BSL]
         else if c = LF then [BSL, CHR ''n'']
         else if c = CR then [BSL, CHR ''r'']
         else if c = CHR 0x09 then [BSL, CHR ''t'']
         else if c = CHR 0x08 then [BSL, CHR ''b'']
         else if c = CHR 0x0C then [BSL, CHR ''f'']
         else if 32 \<le> n \<and> n \<le> 126 then [c]
         else [BSL, CHR ''u'', CHR ''0'', CHR ''0'', hex_digit (n div 16), hex_digit (n mod 16)])"

definition quote :: "string \<Rightarrow> string" where
  "quote s = DQ # concat (map escape_char s) @ [DQ]"

fun dumps_ref :: "json \<Rightarrow> string"
  and dumps_items :: "json list \<Rightarrow> string"
  and dumps_members :: "(string \<times> json) list \<Rightarrow> string" where
  "dumps_ref JNull = ''null''"
| "dumps_ref (JBool b) = (if b then ''true'' else ''false'')"
| "dumps_ref (JInt i) = str_int i"
| "dumps_ref (JString s) = quote s"
| "dumps_ref (JArray vs) = ''['' @ dumps_items vs @ '']''"
| "dumps_ref (JObject kvs) = ''{'' @ dumps_members kvs @ ''}''"
| "dumps_items [] = []"
| "dumps_items [v] = dumps_ref v"
| "dumps_items (v # w # vs) = dumps_ref v @ '', '' @ dumps_items (w # vs)"
| "dumps_members [] = []"
| "dumps_members [(k, v)] = quote k @ '': '' @ dumps_ref v"
| "dumps_members ((k, v) # kv # kvs) = quote k @ '': '' @ dumps_ref v @ '', '' @ dumps_members (kv # kvs)"

definition is_json_ws :: "char \<Rightarrow> bool" where
  "is_json_ws c = (c = CHR '' '' \<or> c = CHR 0x09 \<or> c = LF \<or> c = CR)"

definition skip_ws :: "string \<Rightarrow> string" where
  "skip_ws s = dropWhile is_json_ws s"

definition hex_val :: "char \<Rightarrow> nat option" where
  "hex_val c =
     (let n = (of_char c :: nat)
      in if 48 \<le> n \<and> n \<le> 57 then Some (n - 48)
         else if 97 \<le> n \<and> n \<le> 102 then Some (n - 87)
         else if 65 \<le> n \<and> n \<le> 70 then Some (n - 55)
         else None)"

definition unescape :: "char \<Rightarrow> char option" where
  "unescape e =
     (if e = DQ then Some DQ
      else if e = BSL then Some BSL
      else if e = CHR ''/'' then Some (CHR ''/'')
      else if e = CHR ''b'' then Some (CHR 0x08)
      else if e = CHR ''f'' then Some (CHR 0x0C)
      else if e = CHR ''n'' then Some LF
      else if e = CHR ''r'' then Some CR
      else if e = CHR ''t'' then Some (CHR 0x09)
      else None)"

fun scan_string :: "string \<Rightarrow> (string \<times> string) option" where
  "scan_string [] = None"
| "scan_string (c # cs) =
     (if c = DQ then Some ([], cs)
      else if c = BSL then
        (case cs of
           [] \<Rightarrow> None
         | e # cs1 \<Rightarrow>
             if e = CHR ''u'' then
               (case cs1 of
                  h1 # h2 # h3 # h4 # cs2 \<Rightarrow>
                    (case (hex_val h1, hex_val h2, hex_val h3, hex_val h4) of
                       (Some a, Some b, Some x, Some y) \<Rightarrow>
                         if a = 0 \<and> b = 0
                         then map_option (\<lambda>(t, r). (char_of (16 * x + y) # t, r)) (scan_string cs2)
                         else None
                     | _ \<Rightarrow> None)
                | _ \<Rightarrow> None)
             else
               (case unescape e of
                  None \<Rightarrow> None
                | Some x \<Rightarrow> map_option (\<lambda>(t, r). (x # t, r)) (scan_string cs1)))
      else if (of_char c :: nat) < 32 then None
      else map_option (\<lambda>(t, r). (c # t, r)) (scan_string cs))"

definition scan_number :: "string \<Rightarrow> (json \<times> string) option" where
  "scan_number s =
     (let neg = startswith ''-'' s;
          s1 = (if neg then drop 1 s else s);
          ds = (if startswith ''0'' s1 then ''0'' else takeWhile is_digit s1);
          r = drop (length ds) s1
      in if ds = [] \<or> startswith ''.'' r \<or> startswith ''e'' r \<or> startswith ''E'' r then None
         else Some (JInt ((if neg then - 1 else 1) * int (int_of_digits ds)), r))"

fun dict_set :: "(string \<times> json) list \<Rightarrow> string \<Rightarrow> json \<Rightarrow> (string \<times> json) list" where
  "dict_set [] k v = [(k, v)]"
| "dict_set ((k', v') # kvs) k v =
     (if k' = k then (k', v) # kvs else (k', v') # dict_set kvs k v)"

fun parse_value :: "nat \<Rightarrow> string \<Rightarrow> (json \<times> string) option"
  and parse_items :: "nat \<Rightarrow> string \<Rightarrow> (json list \<times> string) option"
  and parse_members ::
    "nat \<Rightarrow> (string \<times> json) list \<Rightarrow> string \<Rightarrow> ((string \<times> json) list \<times> string) option" where
  "parse_value 0 s = None"
| "parse_value (Suc n) s =
     (case s of
        [] \<Rightarrow> None
      | c # cs \<Rightarrow>
          if c = DQ then map_option (\<lambda>(t, r). (JString t, r)) (scan_string cs)
          else if c = CHR ''['' then
            (case skip_ws cs of
               [] \<Rightarrow> None
             | d # ds \<Rightarrow>
                 if d = CHR '']'' then Some (JArray [], ds)
                 else map_option (\<lambda>(vs, r). (JArray vs, r)) (parse_items n (d # ds)))
          else if c = CHR ''{'' then
            (case skip_ws cs of
               [] \<Rightarrow> None
             | d # ds \<Rightarrow>
                 if d = CHR ''}'' then Some (JObject [], ds)
                 else map_option (\<lambda>(kvs, r). (JObject kvs, r)) (parse_members n [] (d # ds)))
          else if startswith ''null'' s then Some (JNull, drop 4 s)
          else if startswith ''true'' s then Some (JBool True, drop 4 s)
          else if startswith ''false'' s then Some (JBool False, drop 5 s)
          else scan_number s)"
| "parse_items 0 s = None"
| "parse_items (Suc n) s =
     (case parse_value n s of
        None \<Rightarrow> None
      | Some (v, r) \<Rightarrow>
          (case skip_ws r of
             [] \<Rightarrow> None
           | d # ds \<Rightarrow>
               if d = CHR '','' then
                 map_option (\<lambda>(vs, r'). (v # vs, r')) (parse_items n (skip_ws ds))
               else if d = CHR '']'' then Some ([v], ds)
               else None))"
| "parse_members 0 acc s = None"
| "parse_members (Suc n) acc s =
     (case s of
        [] \<Rightarrow> None
      | c # cs \<Rightarrow>
          if c \<noteq> DQ then None
          else
            (case scan_string cs of
               None \<Rightarrow> None
             | Some (k, r) \<Rightarrow>
                 (case skip_ws r of
                    [] \<Rightarrow> None
                  | d # ds \<Rightarrow>
                      if d \<noteq> CHR '':'' then None
                      else
                        (case parse_value n (skip_ws ds) of
                           None \<Rightarrow> None
                         | Some (v, r1) \<Rightarrow>
                             (let acc' = dict_set acc k v
                              in case skip_ws r1 of
                                   [] \<Rightarrow> None
                                 | e # es \<Rightarrow>
                                     if e = CHR '','' then parse_members n acc' (skip_ws es)
                                     else if e = CHR ''}'' then Some (acc', es)
                                     else None)))))"

definition loads_ref :: "string \<Rightarrow> json option" where
  "loads_ref s =
     (case parse_value (Suc (length s)) (skip_ws s) of
        None \<Rightarrow> None
      | Some (v, r) \<Rightarrow> if skip_ws r = [] then Some v else None)"


section \<open>Lines and the header loop\<close>

lemma readlines_Nil_iff: "readlines s = [] \<longleftrightarrow> s = []"
  by (induction s) (auto split: list.splits)

lemma concat_readlines: "concat (readlines s) = s"
  by (induction s) (auto split: list.splits)

lemma readline_append: "fst (readline s) @ snd (readline s) = s"
  by (induction s) (auto split: prod.splits)

lemma readline_fst_Nil: "fst (readline s) = [] \<longleftrightarrow> s = []"
  by (induction s) (auto split: prod.splits)

lemma readline_shorter: "s \<noteq> [] \<Longrightarrow> length (snd (readline s)) < length s"
  using readline_append [of s] readline_fst_Nil [of s]
  by (metis length_append length_greater_0_conv less_add_same_cancel2)

lemma readlines_unfold:
  "s \<noteq> [] \<Longrightarrow> readlines s = fst (readline s) # readlines (snd (readline s))"
proof (induction s)
  case Nil then show ?case by simp
next
  case (Cons c cs)
  show ?case
  proof (cases "cs = []")
    case True then show ?thesis by simp
  next
    case False
    with Cons show ?thesis by (auto split: prod.splits list.splits)
  qed
qed

lemma read_headers_eof: "read_headers [] cl log = None"
proof (cases "read_headers [] cl log")
  case None then show ?thesis .
next
  case (Some y)
  have "s \<noteq> []" if h: "read_headers s cl log = Some y" for s cl log y
    by (rule read_headers.raw_induct [where P = "\<lambda>s cl log y. s \<noteq> []", OF _ h]) (rule notI, simp, blast)
  with Some show ?thesis by blast
qed

lemma read_headers_scan: "read_headers s cl log = scan_lines (readlines s) cl log"
proof (induction "length s" arbitrary: s cl log rule: less_induct)
  case less
  show ?case
  proof (cases "s = []")
    case True
    then show ?thesis by (simp add: read_headers_eof)
  next
    case False
    obtain l r where lr: "readline s = (l, r)" by (cases "readline s")
    from False lr have l: "l \<noteq> []" using readline_fst_Nil [of s] by simp
    from False lr have r: "length r < length s" using readline_shorter [of s] by simp
    from False lr have rl: "readlines s = l # readlines r" using readlines_unfold [of s] by simp
    have IH: "read_headers r cl' log' = scan_lines (readlines r) cl' log'" for cl' log'
      using less r by simp
    show ?thesis
      by (subst read_headers.simps)
        (simp add: lr l rl IH concat_readlines Let_def split: sum.splits)
  qed
qed

section \<open>Digits, whitespace and lines\<close>

lemma of_char_digit: "d < 10 \<Longrightarrow> (of_char (char_of (48 + d :: nat)) :: nat) = 48 + d"
  by simp

lemma is_digit_char_of: "d < 10 \<Longrightarrow> is_digit (char_of (48 + d :: nat))"
  by (simp add: is_digit_def)

lemma digit_val_char_of: "d < 10 \<Longrightarrow> digit_val (char_of (48 + d :: nat)) = d"
  by (simp add: digit_val_def)

lemma str_nat_digits: "list_all is_digit (str_nat n)"
proof (induction n rule: str_nat.induct)
  case (1 n)
  show ?case
  proof (cases "n < 10")
    case True
    then show ?thesis by (subst str_nat.simps) (simp add: is_digit_char_of)
  next
    case False
    with 1 show ?thesis by (subst str_nat.simps) (simp add: is_digit_char_of)
  qed
qed

lemma str_nat_nonempty: "str_nat n \<noteq> []"
  by (subst str_nat.simps) simp

lemma int_of_digits_snoc: "int_of_digits (ds @ [c]) = 10 * int_of_digits ds + digit_val c"
  by (simp add: int_of_digits_def)

lemma int_of_str_nat: "int_of_digits (str_nat n) = n"
proof (induction n rule: str_nat.induct)
  case (1 n)
  show ?case
  proof (cases "n < 10")
    case True
    then show ?thesis
      by (subst str_nat.simps) (simp add: int_of_digits_def digit_val_char_of)
  next
    case False
    with 1 show ?thesis
      by (subst str_nat.simps) (simp add: int_of_digits_snoc digit_val_char_of)
  qed
qed

lemma digit_not_space: "is_digit c \<Longrightarrow> \<not> is_space c"
  by (auto simp: is_digit_def is_space_def Let_def)

lemma digit_not_LF: "is_digit c \<Longrightarrow> c \<noteq> LF"
  by (auto simp: is_digit_def)

lemma digit_not_CR: "is_digit c \<Longrightarrow> c \<noteq> CR"
  by (auto simp: is_digit_def)

lemma is_space_CR [simp]: "is_space CR"
  by (simp add: is_space_def)

lemma is_space_LF [simp]: "is_space LF"
  by (simp add: is_space_def)

lemma strip_core:
  assumes "t \<noteq> []" "\<not> is_space (hd t)" "\<not> is_space (last t)" "list_all is_space w"
  shows "strip (t @ w) = t"
proof -
  from assms(1,2) have a: "dropWhile is_space (t @ w) = t @ w"
    by (cases t) auto
  from assms(4) have b: "dropWhile is_space (rev w @ rev t) = dropWhile is_space (rev t)"
    by (simp add: dropWhile_append list_all_iff)
  from assms(1,3) have c: "dropWhile is_space (rev t) = rev t"
    by (cases t rule: rev_cases) auto
  show ?thesis by (simp add: strip_def a b c)
qed

lemma strip_all_space: "list_all is_space w \<Longrightarrow> strip w = []"
proof -
  assume "list_all is_space w"
  then have e: "dropWhile is_space w = []" by (simp add: list_all_iff)
  show ?thesis unfolding strip_def e by simp
qed

lemma readline_full_line: "full_line l \<Longrightarrow> readline (l @ rest) = (l, rest)"
proof -
  have "LF \<notin> set b \<Longrightarrow> readline (b @ LF # rest) = (b @ [LF], rest)" for b
    by (induction b) auto
  moreover assume "full_line l"
  then have "l = butlast l @ [LF]" "LF \<notin> set (butlast l)"
    by (auto simp: full_line_def dest: append_butlast_last_id)
  ultimately show ?thesis by (metis append.assoc append_Cons append_Nil)
qed

lemma readlines_full_line: "full_line l \<Longrightarrow> readlines (l @ rest) = l # readlines rest"
  using readlines_unfold [of "l @ rest"] readline_full_line [of l rest]
  by (simp add: full_line_def)

lemma header_update_Inl_iff: "header_update line cl = Inl e \<longleftrightarrow> overlong line \<and> e = ValueError"
  by (auto simp: header_update_def overlong_def py_int_def split: option.splits if_splits)

lemma header_update_not_overlong:
  "\<not> overlong (strip h) \<Longrightarrow> header_update (strip h) cl = Inr (next_length cl h)"
  using header_update_Inl_iff [of "strip h" cl]
  by (cases "header_update (strip h) cl") (auto simp: next_length_def)

lemma header_update_blank: "header_update [] cl = Inr cl"
  by (simp add: header_update_def startswith_def)

lemma scan_header_block:
  "header_block hs b \<Longrightarrow>
   scan_lines (readlines (concat hs @ b @ rest)) cl log =
     Some (rest, log @ got_lines (hs @ [b]), Inr (foldl next_length cl hs))"
proof (induction hs arbitrary: cl log)
  case Nil
  then show ?case
    by (simp add: header_block_def readlines_full_line concat_readlines got_lines_def
        header_update_blank)
next
  case (Cons h hs)
  then have "header_block hs b" "full_line h" "strip h \<noteq> []" "\<not> overlong (strip h)"
    by (simp_all add: header_block_def)
  with Cons.IH show ?case
    by (simp add: readlines_full_line got_lines_def header_update_not_overlong)
qed

lemma read_header_block:
  "header_block hs b \<Longrightarrow>
   read_headers (concat hs @ b @ rest) None [] =
     Some (rest, got_lines (hs @ [b]), Inr (declared_length hs))"
  by (simp add: read_headers_scan scan_header_block declared_length_def)

lemma decode_header_block:
  "header_block hs b \<Longrightarrow>
   decode room loads (concat hs @ b @ rest) =
     (case read_body room (declared_length hs) rest of
        Inl e \<Rightarrow> (rest, got_lines (hs @ [b]), Raises e)
      | Inr (body, rest') \<Rightarrow>
          (rest', got_lines (hs @ [b]),
           case loads body of None \<Rightarrow> Raises (JSONDecodeError body) | Some v \<Rightarrow> Returns v))"
  by (simp add: decode_def read_header_block split: prod.splits option.splits sum.splits)

lemma read_body_granted:
  "granted room n \<Longrightarrow> read_body room (Some n) s = Inr (take n s, drop n s)"
  by (simp add: read_body_def granted_def)


section \<open>The frame written by \<^verbatim>\<open>send_request\<close>\<close>

lemma content_length_line_full: "full_line (''Content-Length: '' @ str_nat n @ CRLF)"
proof -
  have "LF \<notin> set (str_nat n)"
    using str_nat_digits [of n] digit_not_LF by (auto simp: list_all_iff)
  then show ?thesis by (simp add: full_line_def butlast_append)
qed

lemma CRLF_full: "full_line CRLF"
  by (simp add: full_line_def)

lemma strip_CRLF: "strip CRLF = []"
  by (simp add: strip_all_space)

lemma strip_content_length_line:
  "strip (''Content-Length: '' @ str_nat n @ CRLF) = ''Content-Length: '' @ str_nat n"
proof -
  have "\<not> is_space (last (str_nat n))"
    using str_nat_digits [of n] str_nat_nonempty [of n] digit_not_space
    by (auto simp: list_all_iff)
  then have "\<not> is_space (last (''Content-Length: '' @ str_nat n))"
    using str_nat_nonempty [of n] by simp
  moreover have "\<not> is_space (hd (''Content-Length: '' @ str_nat n))"
    by (simp add: is_space_def)
  ultimately show ?thesis
    using strip_core [of "''Content-Length: '' @ str_nat n" CRLF] by simp
qed

lemma match_digits:
  assumes "ds \<noteq> []" "list_all is_digit ds" "extra = [] \<or> \<not> is_digit (hd extra)"
  shows "match_content_length (''Content-Length: '' @ ds @ extra) = Some ds"
proof -
  from assms(2,3) have "takeWhile is_digit (ds @ extra) = ds"
    by (cases extra) (auto simp: list_all_iff takeWhile_append)
  with assms(1) show ?thesis
    by (simp add: match_content_length_def startswith_def)
qed

lemma header_update_digits:
  assumes "ds \<noteq> []" "list_all is_digit ds" "extra = [] \<or> \<not> is_digit (hd extra)"
  shows "header_update (''Content-Length: '' @ ds @ extra) cl =
           (if int_max_str_digits < length ds then Inl ValueError
            else Inr (Some (int_of_digits ds)))"
  using match_digits [OF assms]
  by (simp add: header_update_def startswith_def py_int_def)

lemma overlong_digits:
  assumes "ds \<noteq> []" "list_all is_digit ds" "extra = [] \<or> \<not> is_digit (hd extra)"
  shows "overlong (''Content-Length: '' @ ds @ extra) \<longleftrightarrow> int_max_str_digits < length ds"
  using match_digits [OF assms] by (simp add: overlong_def startswith_def)

lemma length_str_nat: "0 < k \<Longrightarrow> n < 10 ^ k \<Longrightarrow> length (str_nat n) \<le> k"
proof (induction n arbitrary: k rule: str_nat.induct)
  case (1 n)
  show ?case
  proof (cases "n < 10")
    case True
    with 1 show ?thesis by (subst str_nat.simps) simp
  next
    case False
    with "1.prems" have k: "1 < k" by (cases "k = 1") auto
    then obtain j where j: "k = Suc j" "0 < j" by (cases k) auto
    with "1.prems" have "n div 10 < 10 ^ j" by (simp add: less_mult_imp_div_less mult.commute)
    with "1.IH" [OF False, of j] j have "length (str_nat (n div 10)) \<le> j" by simp
    with False j show ?thesis by (subst str_nat.simps) simp
  qed
qed

lemma str_nat_within_limit:
  "int n \<le> sys_maxsize \<Longrightarrow> length (str_nat n) \<le> int_max_str_digits"
proof -
  assume "int n \<le> sys_maxsize"
  then have "n < 10 ^ 19" by (simp add: sys_maxsize_def)
  then have "length (str_nat n) \<le> 19" by (rule length_str_nat [rotated]) simp
  then show ?thesis by (simp add: int_max_str_digits_def)
qed

lemma header_block_encode:
  "int n \<le> sys_maxsize \<Longrightarrow> header_block [''Content-Length: '' @ str_nat n @ CRLF] CRLF"
  using content_length_line_full [of n] strip_content_length_line [of n]
    overlong_digits [of "str_nat n" "[]"] str_nat_within_limit [of n]
  by (simp add: header_block_def CRLF_full strip_CRLF str_nat_nonempty str_nat_digits
      del: append.simps)

lemma declared_length_encode:
  "int n \<le> sys_maxsize \<Longrightarrow> declared_length [''Content-Length: '' @ str_nat n @ CRLF] = Some n"
  using header_update_digits [of "str_nat n" "[]" None] str_nat_within_limit [of n]
  by (simp add: declared_length_def next_length_def strip_content_length_line str_nat_nonempty
      str_nat_digits int_of_str_nat py_int_def del: append.simps)


text \<open>
  Claim C3. For every request, what \<^verbatim>\<open>send_request\<close> writes is the header line
  \<^verbatim>\<open>Content-Length: N\<close>, a CR LF, the CR LF of a blank line, and then the serialized
  body with nothing after it. \<open>N\<close> is the length of the body in decimal digits: read
  back as a number it is that length. Cut into lines, the text is that one header
  line, the blank line, and the lines of the body. The text is appended to what has
  been written to \<^verbatim>\<open>proc.stdin\<close>, however the call ends.
\<close>

theorem encode_exact_frame:
  "encode dumps request =
     ''Content-Length: '' @ str_nat (length (dumps request)) @ CRLF @ CRLF @ dumps request
   \<and> str_nat (length (dumps request)) \<noteq> []
   \<and> list_all is_digit (str_nat (length (dumps request)))
   \<and> int_of_digits (str_nat (length (dumps request))) = length (dumps request)
   \<and> readlines (encode dumps request) =
       (''Content-Length: '' @ str_nat (length (dumps request)) @ CRLF) # CRLF
         # readlines (dumps request)
   \<and> stdin (fst (send_request dumps loads room request p)) = stdin p @ encode dumps request"
proof -
  let ?n = "length (dumps request)"
  have e: "encode dumps request = (''Content-Length: '' @ str_nat ?n @ CRLF) @ CRLF @ dumps request"
    by (simp add: encode_def Let_def)
  have "readlines (encode dumps request) =
          (''Content-Length: '' @ str_nat ?n @ CRLF) # readlines (CRLF @ dumps request)"
    unfolding e by (rule readlines_full_line [OF content_length_line_full])
  moreover have "readlines (CRLF @ dumps request) = CRLF # readlines (dumps request)"
    by (rule readlines_full_line [OF CRLF_full])
  moreover have "stdin (fst (send_request dumps loads room request p)) = stdin p @ encode dumps request"
    by (simp add: send_request_def Let_def split: prod.splits)
  ultimately show ?thesis
    using e by (simp add: str_nat_nonempty str_nat_digits int_of_str_nat)
qed

section \<open>Decoding a frame\<close>

lemma universal_newlines_no_CR: "CR \<notin> set xs \<Longrightarrow> universal_newlines (xs @ ys) = xs @ universal_newlines ys"
proof (induction xs)
  case Nil
  then show ?case by simp
next
  case (Cons x xs)
  then show ?case by (cases "xs @ ys") auto
qed

lemma universal_newlines_id: "CR \<notin> set xs \<Longrightarrow> universal_newlines xs = xs"
  using universal_newlines_no_CR [of xs "[]"] by simp

lemma universal_newlines_encode:
  assumes "CR \<notin> set (dumps request)"
  shows "universal_newlines (encode dumps request) =
           (''Content-Length: '' @ str_nat (length (dumps request)) @ [LF]) @ [LF] @ dumps request"
proof -
  let ?n = "length (dumps request)"
  have d: "CR \<notin> set (''Content-Length: '' @ str_nat ?n)"
    using str_nat_digits [of ?n] digit_not_CR by (auto simp: list_all_iff)
  have "encode dumps request = (''Content-Length: '' @ str_nat ?n) @ (CR # LF # CR # LF # dumps request)"
    by (simp add: encode_def Let_def)
  then have "universal_newlines (encode dumps request) =
      (''Content-Length: '' @ str_nat ?n) @ universal_newlines (CR # LF # CR # LF # dumps request)"
    using universal_newlines_no_CR [OF d] by simp
  then show ?thesis using universal_newlines_id [OF assms] by simp
qed

lemma content_length_line_LF: "full_line (''Content-Length: '' @ str_nat n @ [LF])"
proof -
  have "LF \<notin> set (str_nat n)"
    using str_nat_digits [of n] digit_not_LF by (auto simp: list_all_iff)
  then show ?thesis by (simp add: full_line_def butlast_append)
qed

lemma strip_content_length_line_LF:
  "strip (''Content-Length: '' @ str_nat n @ [LF]) = ''Content-Length: '' @ str_nat n"
proof -
  have "\<not> is_space (last (str_nat n))"
    using str_nat_digits [of n] str_nat_nonempty [of n] digit_not_space
    by (auto simp: list_all_iff)
  then have "\<not> is_space (last (''Content-Length: '' @ str_nat n))"
    using str_nat_nonempty [of n] by simp
  moreover have "\<not> is_space (hd (''Content-Length: '' @ str_nat n))"
    by (simp add: is_space_def)
  ultimately show ?thesis
    using strip_core [of "''Content-Length: '' @ str_nat n" "[LF]"] by simp
qed

lemma header_block_encode_LF:
  "int n \<le> sys_maxsize \<Longrightarrow> header_block [''Content-Length: '' @ str_nat n @ [LF]] [LF]"
  using content_length_line_LF [of n] strip_content_length_line_LF [of n]
    overlong_digits [of "str_nat n" "[]"] str_nat_within_limit [of n]
  by (simp add: header_block_def full_line_def strip_all_space str_nat_nonempty str_nat_digits
      del: append.simps)

lemma declared_length_encode_LF:
  "int n \<le> sys_maxsize \<Longrightarrow> declared_length [''Content-Length: '' @ str_nat n @ [LF]] = Some n"
  using header_update_digits [of "str_nat n" "[]" None] str_nat_within_limit [of n]
  by (simp add: declared_length_def next_length_def strip_content_length_line_LF str_nat_nonempty
      str_nat_digits int_of_str_nat py_int_def del: append.simps)

lemma got_lines_encode:
  "got_lines [''Content-Length: '' @ str_nat n @ CRLF, CRLF] =
     [Got_line (''Content-Length: '' @ str_nat n), Got_line []]"
  using strip_content_length_line [of n] by (simp add: got_lines_def strip_CRLF)

lemma got_lines_encode_LF:
  "got_lines [''Content-Length: '' @ str_nat n @ [LF], [LF]] =
     [Got_line (''Content-Length: '' @ str_nat n), Got_line []]"
  using strip_content_length_line_LF [of n] by (simp add: got_lines_def strip_all_space)

lemma decode_encode:
  assumes "granted room (length (dumps request))"
  shows "decode room loads (encode dumps request) =
     ([], [Got_line (''Content-Length: '' @ str_nat (length (dumps request))), Got_line []],
      case loads (dumps request) of
        None \<Rightarrow> Raises (JSONDecodeError (dumps request))
      | Some v \<Rightarrow> Returns v)"
proof -
  let ?n = "length (dumps request)"
  from assms have n: "int ?n \<le> sys_maxsize" by (simp add: granted_def)
  have e: "encode dumps request =
             concat [''Content-Length: '' @ str_nat ?n @ CRLF] @ CRLF @ dumps request"
    by (simp add: encode_def Let_def)
  show ?thesis
    unfolding e decode_header_block [OF header_block_encode [OF n]] declared_length_encode [OF n]
      got_lines_encode [symmetric] read_body_granted [OF assms]
    by simp
qed

lemma decode_universal_newlines_encode:
  assumes "CR \<notin> set (dumps request)" and g: "granted room (length (dumps request))"
  shows "decode room loads (universal_newlines (encode dumps request)) =
     ([], [Got_line (''Content-Length: '' @ str_nat (length (dumps request))), Got_line []],
      case loads (dumps request) of
        None \<Rightarrow> Raises (JSONDecodeError (dumps request))
      | Some v \<Rightarrow> Returns v)"
proof -
  let ?n = "length (dumps request)"
  from g have n: "int ?n \<le> sys_maxsize" by (simp add: granted_def)
  have e: "universal_newlines (encode dumps request) =
             concat [''Content-Length: '' @ str_nat ?n @ [LF]] @ [LF] @ dumps request"
    using universal_newlines_encode [of dumps request] assms by simp
  show ?thesis
    unfolding e decode_header_block [OF header_block_encode_LF [OF n]]
      declared_length_encode_LF [OF n] got_lines_encode_LF [symmetric] read_body_granted [OF g]
    by simp
qed

text \<open>
  Claim C2. For every request built as on line 56 (an integer id, a method string and
  JSON parameters) that the JSON library prints and parses back to itself, decoding
  the text \<^verbatim>\<open>send_request\<close> writes for it returns that request and leaves nothing
  unread. The same holds when the text first passes through the newline translation
  of the pipe's text layer, provided the printed body has no carriage return in it.
  The printed body is a Python string, so its length is no more than \<^verbatim>\<open>sys.maxsize\<close>, and
  the machine is taken to have room to read it back: \<^verbatim>\<open>read\<close> is granted that length.
\<close>

theorem decode_encode_roundtrip:
  assumes "loads (dumps (make_request i method params)) = Some (make_request i method params)"
    and "granted room (length (dumps (make_request i method params)))"
  shows "snd (snd (decode room loads (encode dumps (make_request i method params))))
           = Returns (make_request i method params)
       \<and> fst (decode room loads (encode dumps (make_request i method params))) = []
       \<and> (CR \<notin> set (dumps (make_request i method params)) \<longrightarrow>
            snd (snd (decode room loads
                        (universal_newlines (encode dumps (make_request i method params)))))
              = Returns (make_request i method params))"
  using assms by (simp add: decode_encode decode_universal_newlines_encode)

theorem decode_encode_roundtrip_witness:
  "loads_ref (dumps_ref (make_request 1 ''find_symbols'' (JObject [(''name'', JString ''foo'')])))
     = Some (make_request 1 ''find_symbols'' (JObject [(''name'', JString ''foo'')]))
   \<and> granted ample
        (length (dumps_ref (make_request 1 ''find_symbols'' (JObject [(''name'', JString ''foo'')]))))
   \<and> CR \<notin> set (dumps_ref (make_request 1 ''find_symbols'' (JObject [(''name'', JString ''foo'')])))
   \<and> snd (snd (decode ample loads_ref (encode dumps_ref
        (make_request 1 ''find_symbols'' (JObject [(''name'', JString ''foo'')])))))
       = Returns (make_request 1 ''find_symbols'' (JObject [(''name'', JString ''foo'')]))
   \<and> snd (snd (decode ample loads_ref (universal_newlines (encode dumps_ref
        (make_request 1 ''find_symbols'' (JObject [(''name'', JString ''foo'')]))))))
       = Returns (make_request 1 ''find_symbols'' (JObject [(''name'', JString ''foo'')]))"
proof -
  let ?r = "make_request 1 ''find_symbols'' (JObject [(''name'', JString ''foo'')])"
  have h: "loads_ref (dumps_ref ?r) = Some ?r" by code_simp
  have l: "length (dumps_ref ?r) = 62" by code_simp
  have g: "granted ample (length (dumps_ref ?r))"
    unfolding l by (simp add: granted_def ample_def sys_maxsize_def)
  have c: "CR \<notin> set (dumps_ref ?r)" by code_simp
  from decode_encode_roundtrip [of loads_ref dumps_ref 1 "''find_symbols''"
      "JObject [(''name'', JString ''foo'')]" ample, OF h g] h g c
  show ?thesis by blast
qed

section \<open>Streams that end early, and frames that are not well formed\<close>

lemma digits_line_full:
  assumes "list_all is_digit ds"
  shows "full_line (''Content-Length: '' @ ds @ CRLF)"
proof -
  have "LF \<notin> set ds"
    using assms digit_not_LF by (auto simp: list_all_iff)
  then show ?thesis by (simp add: full_line_def butlast_append)
qed

lemma strip_digits_line:
  assumes "ds \<noteq> []" "list_all is_digit ds"
  shows "strip (''Content-Length: '' @ ds @ CRLF) = ''Content-Length: '' @ ds"
proof -
  have "\<not> is_space (last ds)"
    using assms digit_not_space by (auto simp: list_all_iff)
  then have "\<not> is_space (last (''Content-Length: '' @ ds))"
    using assms(1) by simp
  moreover have "\<not> is_space (hd (''Content-Length: '' @ ds))"
    by (simp add: is_space_def)
  ultimately show ?thesis
    using strip_core [of "''Content-Length: '' @ ds" CRLF] by simp
qed



















section \<open>How a header line sets the length\<close>

lemma read_headers_step:
  assumes "readline s = (line, rest)" "line \<noteq> []" "strip line \<noteq> []"
    and "header_update (strip line) cl = Inr cl'"
  shows "read_headers s cl log = read_headers rest cl' (log @ [Got_line (strip line)])"
  using assms by (subst read_headers.simps) (simp add: Let_def)

lemma read_headers_step_raises:
  assumes "readline s = (line, rest)" "line \<noteq> []"
    and "header_update (strip line) cl = Inl e"
  shows "read_headers s cl log = Some (rest, log @ [Got_line (strip line)], Inl e)"
  using assms by (subst read_headers.simps) (simp add: Let_def)

lemma header_update_no_match:
  assumes "\<not> (startswith ''Content-Length: '' t \<and> 16 < length t \<and> is_digit (t ! 16))"
  shows "header_update t cl = Inr cl"
proof (cases "startswith ''Content-Length: '' t")
  case False
  then show ?thesis by (simp add: header_update_def match_content_length_def)
next
  case True
  with assms have "\<not> (16 < length t \<and> is_digit (t ! 16))" by simp
  then have "takeWhile is_digit (drop 16 t) = []"
  proof (cases "drop 16 t")
    case Nil
    then show ?thesis by simp
  next
    case (Cons a as)
    then have "t ! 16 = a" by (rule nth_via_drop)
    moreover from Cons have "16 < length t" by (cases "16 < length t") auto
    ultimately show ?thesis
      using Cons \<open>\<not> (16 < length t \<and> is_digit (t ! 16))\<close> by simp
  qed
  then show ?thesis by (simp add: header_update_def match_content_length_def)
qed

text \<open>
  Claim C9, as the code has it. Take any line the header loop reads. If the stripped
  line is \<^verbatim>\<open>Content-Length: \<close> followed by a run of one or more digits and then by
  anything that does not start with a digit, then, when the run has no more digits
  than \<^verbatim>\<open>int\<close> converts (4300), the loop goes on with that run, read as a number, as the
  expected length, whatever follows the digits; when the run is longer, line 32 raises
  \<^verbatim>\<open>ValueError\<close>, nothing is stored and the call ends with that error. If the stripped
  line starts with \<^verbatim>\<open>Content-Length\<close> but is not \<^verbatim>\<open>Content-Length: \<close> followed by a digit,
  the loop goes on with the expected length it had.
\<close>

theorem content_length_lenient:
  assumes "readline s = (line, rest)" and "line \<noteq> []"
  shows "(strip line = ''Content-Length: '' @ ds @ extra \<and> ds \<noteq> [] \<and> list_all is_digit ds
            \<and> (extra = [] \<or> \<not> is_digit (hd extra)) \<longrightarrow>
          (length ds \<le> int_max_str_digits \<longrightarrow>
             header_update (strip line) cl = Inr (Some (int_of_digits ds))
             \<and> read_headers s cl log =
                 read_headers rest (Some (int_of_digits ds)) (log @ [Got_line (strip line)]))
          \<and> (int_max_str_digits < length ds \<longrightarrow>
             header_update (strip line) cl = Inl ValueError
             \<and> read_headers s cl log =
                 Some (rest, log @ [Got_line (strip line)], Inl ValueError)))
       \<and> (startswith ''Content-Length'' (strip line)
            \<and> \<not> (startswith ''Content-Length: '' (strip line) \<and> 16 < length (strip line)
                   \<and> is_digit (strip line ! 16)) \<longrightarrow>
          header_update (strip line) cl = Inr cl
          \<and> read_headers s cl log = read_headers rest cl (log @ [Got_line (strip line)]))"
proof (intro conjI impI)
  assume a: "strip line = ''Content-Length: '' @ ds @ extra \<and> ds \<noteq> [] \<and> list_all is_digit ds
            \<and> (extra = [] \<or> \<not> is_digit (hd extra))"
  then have u: "header_update (strip line) cl =
                  (if int_max_str_digits < length ds then Inl ValueError
                   else Inr (Some (int_of_digits ds)))"
    using header_update_digits [of ds extra cl] by simp
  from a have ne: "strip line \<noteq> []" by simp
  {
    assume "length ds \<le> int_max_str_digits"
    with u show v: "header_update (strip line) cl = Inr (Some (int_of_digits ds))" by simp
    from read_headers_step [OF assms ne v]
    show "read_headers s cl log =
            read_headers rest (Some (int_of_digits ds)) (log @ [Got_line (strip line)])" .
  }
  {
    assume "int_max_str_digits < length ds"
    with u show v: "header_update (strip line) cl = Inl ValueError" by simp
    from read_headers_step_raises [OF assms v]
    show "read_headers s cl log = Some (rest, log @ [Got_line (strip line)], Inl ValueError)" .
  }
next
  assume b: "startswith ''Content-Length'' (strip line)
            \<and> \<not> (startswith ''Content-Length: '' (strip line) \<and> 16 < length (strip line)
                   \<and> is_digit (strip line ! 16))"
  then show u: "header_update (strip line) cl = Inr cl"
    using header_update_no_match [of "strip line" cl] by simp
  from b have "strip line \<noteq> []" by (auto simp: startswith_def)
  from read_headers_step [OF assms this u]
  show "read_headers s cl log = read_headers rest cl (log @ [Got_line (strip line)])" .
qed

theorem content_length_lenient_witness:
  "read_headers (''Content-Length: 12junk'' @ CRLF @ CRLF) (Some 3) [] =
     read_headers CRLF (Some 12) [Got_line ''Content-Length: 12junk'']
   \<and> read_headers (''Content-Length: abc'' @ CRLF @ CRLF) (Some 3) [] =
     read_headers CRLF (Some 3) [Got_line ''Content-Length: abc'']
   \<and> read_headers CRLF (Some 12) [Got_line ''Content-Length: 12junk''] =
     Some ([], [Got_line ''Content-Length: 12junk'', Got_line []], Inr (Some 12))"
proof -
  have r1: "readline (''Content-Length: 12junk'' @ CRLF @ CRLF) = (''Content-Length: 12junk'' @ CRLF, CRLF)"
    by simp
  have r2: "readline (''Content-Length: abc'' @ CRLF @ CRLF) = (''Content-Length: abc'' @ CRLF, CRLF)"
    by simp
  have n1: "''Content-Length: 12junk'' @ CRLF \<noteq> []" and n2: "''Content-Length: abc'' @ CRLF \<noteq> []"
    by simp_all
  have s1: "strip (''Content-Length: 12junk'' @ CRLF) = ''Content-Length: '' @ ''12'' @ ''junk''"
    by code_simp
  have s2: "strip (''Content-Length: abc'' @ CRLF) = ''Content-Length: abc''"
    by code_simp
  have d1: "''12'' \<noteq> [] \<and> list_all is_digit ''12'' \<and> (''junk'' = [] \<or> \<not> is_digit (hd ''junk''))"
    by code_simp
  have k1: "length ''12'' \<le> int_max_str_digits" by (simp add: int_max_str_digits_def)
  have d2: "startswith ''Content-Length'' ''Content-Length: abc''
            \<and> \<not> (startswith ''Content-Length: '' ''Content-Length: abc''
                   \<and> 16 < length ''Content-Length: abc'' \<and> is_digit (''Content-Length: abc'' ! 16))"
    by code_simp
  have i: "int_of_digits ''12'' = 12" by code_simp
  have e: "read_headers CRLF (Some 12) [Got_line ''Content-Length: 12junk''] =
     Some ([], [Got_line ''Content-Length: 12junk'', Got_line []], Inr (Some 12))"
    by code_simp
  from content_length_lenient [OF r1 n1, of "''12''" "''junk''" "Some 3" "[]"] s1 d1 k1 i
  have a: "read_headers (''Content-Length: 12junk'' @ CRLF @ CRLF) (Some 3) [] =
     read_headers CRLF (Some 12) [Got_line ''Content-Length: 12junk'']"
    by simp
  from content_length_lenient [OF r2 n2, of _ _ "Some 3" "[]"] s2 d2
  have b: "read_headers (''Content-Length: abc'' @ CRLF @ CRLF) (Some 3) [] =
     read_headers CRLF (Some 3) [Got_line ''Content-Length: abc'']"
    by simp
  from a b e show ?thesis by blast
qed

text \<open>
  The claim as stated, for any run of digits, fails on a run of 4301 digits: nothing is
  stored, and a call that reads this header line ends with \<^verbatim>\<open>ValueError\<close>.
\<close>

theorem content_length_counterexample:
  "header_update (''Content-Length: '' @ replicate 4301 (CHR ''7'')) (Some 3) = Inl ValueError
   \<and> snd (snd (decode ample loads_ref
        (''Content-Length: '' @ replicate 4301 (CHR ''7'') @ CRLF @ CRLF @ ''[]'')))
       = Raises ValueError"
proof -
  define ds where "ds = replicate 4301 (CHR ''7'')"
  have ds: "ds \<noteq> []" "list_all is_digit ds" "int_max_str_digits < length ds"
    by (simp_all add: ds_def list_all_iff is_digit_def int_max_str_digits_def)
  have u: "header_update (''Content-Length: '' @ ds) cl = Inl ValueError" for cl
    using header_update_digits [of ds "[]" cl] ds by simp
  have r: "readline ((''Content-Length: '' @ ds @ CRLF) @ CRLF @ ''[]'') =
             (''Content-Length: '' @ ds @ CRLF, CRLF @ ''[]'')"
    by (rule readline_full_line [OF digits_line_full [OF ds(2)]])
  have s: "strip (''Content-Length: '' @ ds @ CRLF) = ''Content-Length: '' @ ds"
    by (rule strip_digits_line [OF ds(1,2)])
  have n: "''Content-Length: '' @ ds @ CRLF \<noteq> []" by simp
  have "header_update (strip (''Content-Length: '' @ ds @ CRLF)) None = Inl ValueError"
    unfolding s by (rule u)
  from read_headers_step_raises [OF r n this, of "[]"]
  have "snd (snd (decode ample loads_ref ((''Content-Length: '' @ ds @ CRLF) @ CRLF @ ''[]'')))
          = Raises ValueError"
    by (simp add: decode_def)
  then show ?thesis using u [of "Some 3"] by (simp add: ds_def)
qed

section \<open>The interactive loop: identifiers and errors\<close>

lemma request_id_make_request [simp]: "request_id (make_request i method params) = Some i"
  by (simp add: request_id_def make_request_def)

lemma send_request_stdin:
  "send_request dumps loads room request p = (p', log, res) \<Longrightarrow> stdin p' = stdin p @ encode dumps request"
  by (auto simp: send_request_def Let_def split: prod.splits if_splits)

lemma ids_in_order_start: "ids_in_order dumps (start out k)"
  by (simp add: ids_in_order_def start_def)

lemma ids_in_order_console [simp]:
  "ids_in_order dumps (st\<lparr>console := c\<rparr>) = ids_in_order dumps st"
  by (simp add: ids_in_order_def)

lemma ids_in_order_send:
  assumes "ids_in_order dumps st"
    and "send_request dumps loads room (make_request (req_id st) method params) (proc st) = (p', log, res)"
  shows "ids_in_order dumps
           (st\<lparr>req_id := req_id st + 1,
               sent := sent st @ [make_request (req_id st) method params],
               proc := p'\<rparr>)"
  using assms send_request_stdin [OF assms(2)]
  by (simp add: ids_in_order_def)

lemma main_loop_ids_in_order:
  "ids_in_order dumps st \<Longrightarrow> ids_in_order dumps (fst (main_loop dumps loads room ins st))"
proof (induction ins arbitrary: st rule: induct_list012)
  case 1
  then show ?case by simp
next
  case (2 m)
  then show ?case by simp
next
  case (3 m p ins)
  note IH = "3.IH"(1)
  show ?case
  proof (cases "lower (strip m) \<in> {''exit'', ''quit''}")
    case True
    with "3.prems" show ?thesis by (simp add: Let_def)
  next
    case False
    note ne = this
    let ?st1 = "st\<lparr>console := console st @ [Prompt_method, Prompt_params]\<rparr>"
    show ?thesis
    proof (cases "parse_params loads (strip p)")
      case None
      with ne IH [of "?st1\<lparr>console := console ?st1 @ [Notice_invalid_json]\<rparr>"] "3.prems"
      show ?thesis by (simp add: Let_def)
    next
      case (Some params)
      let ?request = "make_request (req_id st) (strip m) params"
      let ?st2 = "?st1\<lparr>req_id := req_id ?st1 + 1, sent := sent ?st1 @ [?request]\<rparr>"
      obtain p' log res where sr: "send_request dumps loads room ?request (proc st) = (p', log, res)"
        by (cases "send_request dumps loads room ?request (proc st)") auto
      have inv: "ids_in_order dumps (?st2\<lparr>proc := p'\<rparr>)"
        using ids_in_order_send [OF "3.prems" sr] by (simp add: ids_in_order_def)
      show ?thesis
      proof (cases res)
        case (Returns resp)
        have "ids_in_order dumps (fst (main_loop dumps loads room ins
                 (?st2\<lparr>proc := p', console := console ?st2 @ log @ [Print_response resp]\<rparr>)))"
          using inv by (intro IH) (simp add: ids_in_order_def)
        with ne Some sr Returns show ?thesis by (simp add: Let_def)
      next
        case (Raises e)
        with ne Some sr inv show ?thesis by (simp add: Let_def ids_in_order_def)
      next
        case Hangs
        with ne Some sr inv show ?thesis by (simp add: Let_def ids_in_order_def)
      qed
    qed
  qed
qed

lemma ids_from_one:
  "sorted_wrt (<) (map int [1..<Suc n]) \<and> distinct (map int [1..<Suc n])
   \<and> (map int [1..<Suc n] \<noteq> [] \<longrightarrow> hd (map int [1..<Suc n]) = 1)"
proof -
  have "sorted_wrt (<) (map int [1..<Suc n])"
    by (simp add: sorted_wrt_map del: upt_Suc)
  moreover have "distinct (map int [1..<Suc n])"
    by (simp add: distinct_map del: upt_Suc)
  moreover have "map int [1..<Suc n] \<noteq> [] \<longrightarrow> hd (map int [1..<Suc n]) = 1"
    by (cases n) (simp_all add: upt_conv_Cons del: upt_Suc)
  ultimately show ?thesis by blast
qed

text \<open>
  Claim C8. In a session, whatever the user types and whatever the child answers, the
  requests passed to \<^verbatim>\<open>send_request\<close> carry ids that increase strictly from one request
  to the next, the first of them is 1, and no id occurs twice. What has been written
  to \<^verbatim>\<open>proc.stdin\<close> is the frames of exactly those requests, in that order.
\<close>

theorem ids_strictly_increasing:
  "\<exists>ids. map request_id (sent (fst (main_loop dumps loads room ins (start out k)))) = map Some ids
     \<and> sorted_wrt (<) ids \<and> distinct ids \<and> (ids \<noteq> [] \<longrightarrow> hd ids = 1)
     \<and> stdin (proc (fst (main_loop dumps loads room ins (start out k)))) =
         concat (map (encode dumps) (sent (fst (main_loop dumps loads room ins (start out k)))))"
proof -
  let ?st = "fst (main_loop dumps loads room ins (start out k))"
  let ?ids = "map int [1..<Suc (length (sent ?st))]"
  have inv: "ids_in_order dumps ?st"
    by (rule main_loop_ids_in_order [OF ids_in_order_start])
  then have "map request_id (sent ?st) = map Some ?ids"
    by (simp add: ids_in_order_def del: upt_Suc)
  moreover from inv have "stdin (proc ?st) = concat (map (encode dumps) (sent ?st))"
    by (simp add: ids_in_order_def)
  ultimately show ?thesis
    using ids_from_one [of "length (sent ?st)"] by blast
qed

theorem ids_strictly_increasing_witness:
  "\<exists>ids. map request_id (sent (fst (main_loop dumps_ref loads_ref ample
              [''ping'', '''', ''list'', ''{'', ''list'', ''[1]'', ''exit'']
              (start (''Content-Length: 2'' @ CRLF @ CRLF @ ''[]''
                      @ ''Content-Length: 2'' @ CRLF @ CRLF @ ''{}'') 2)))) = map Some ids
     \<and> ids \<noteq> [] \<and> hd ids = 1 \<and> sorted_wrt (<) ids \<and> distinct ids"
proof -
  let ?st = "fst (main_loop dumps_ref loads_ref ample
              [''ping'', '''', ''list'', ''{'', ''list'', ''[1]'', ''exit'']
              (start (''Content-Length: 2'' @ CRLF @ CRLF @ ''[]''
                      @ ''Content-Length: 2'' @ CRLF @ CRLF @ ''{}'') 2))"
  have ne: "sent ?st \<noteq> []" by code_simp
  from ids_strictly_increasing [of dumps_ref loads_ref ample
      "[''ping'', '''', ''list'', ''{'', ''list'', ''[1]'', ''exit'']"
      "''Content-Length: 2'' @ CRLF @ CRLF @ ''[]'' @ ''Content-Length: 2'' @ CRLF @ CRLF @ ''{}''" 2]
  obtain ids where i: "map request_id (sent ?st) = map Some ids" "sorted_wrt (<) ids"
    "distinct ids" "ids \<noteq> [] \<longrightarrow> hd ids = 1"
    by blast
  from i(1) ne have "ids \<noteq> []" by auto
  with i show ?thesis by blast
qed

text \<open>
  Claim C10. When the parameters the user typed are not JSON, the pass of the loop ends
  on line 54: the loop goes on with the same \<^verbatim>\<open>req_id\<close>, the same child process (nothing
  written) and the same requests sent; only the two prompts and the notice have been
  printed. So in every session the ids of the requests sent are 1, 2, 3, ... without a
  gap, \<^verbatim>\<open>req_id\<close> is the next one, and what has been written to \<^verbatim>\<open>proc.stdin\<close> is the
  frames of those requests and nothing else.
\<close>

theorem invalid_params_send_nothing:
  "(strip p \<noteq> [] \<and> loads (strip p) = None \<and> lower (strip m) \<notin> {''exit'', ''quit''} \<longrightarrow>
      main_loop dumps loads room (m # p # ins) st =
        main_loop dumps loads room ins
          (st\<lparr>console := console st @ [Prompt_method, Prompt_params, Notice_invalid_json]\<rparr>))
   \<and> map request_id (sent (fst (main_loop dumps loads room ins (start out k)))) =
       map (\<lambda>k. Some (int k)) [1..<Suc (length (sent (fst (main_loop dumps loads room ins (start out k)))))]
   \<and> req_id (fst (main_loop dumps loads room ins (start out k))) =
       int (length (sent (fst (main_loop dumps loads room ins (start out k))))) + 1
   \<and> stdin (proc (fst (main_loop dumps loads room ins (start out k)))) =
       concat (map (encode dumps) (sent (fst (main_loop dumps loads room ins (start out k)))))"
proof -
  have "ids_in_order dumps (fst (main_loop dumps loads room ins (start out k)))"
    by (rule main_loop_ids_in_order [OF ids_in_order_start])
  then show ?thesis
    by (simp add: ids_in_order_def parse_params_def Let_def del: upt_Suc)
qed

theorem invalid_params_send_nothing_witness:
  "strip ''{bad'' \<noteq> [] \<and> loads_ref (strip ''{bad'') = None
   \<and> lower (strip ''list'') \<notin> {''exit'', ''quit''}
   \<and> main_loop dumps_ref loads_ref ample [''list'', ''{bad'', ''exit''] (start [] 2) =
       main_loop dumps_ref loads_ref ample [''exit'']
         ((start [] 2)\<lparr>console := console (start [] 2) @ [Prompt_method, Prompt_params, Notice_invalid_json]\<rparr>)
   \<and> sent (fst (main_loop dumps_ref loads_ref ample [''list'', ''{bad'', ''exit''] (start [] 2))) = []
   \<and> stdin (proc (fst (main_loop dumps_ref loads_ref ample [''list'', ''{bad'', ''exit''] (start [] 2)))) = []"
proof -
  have a: "strip ''{bad'' \<noteq> []" by code_simp
  have b: "loads_ref (strip ''{bad'') = None" by code_simp
  have c: "lower (strip ''list'') \<notin> {''exit'', ''quit''}" by code_simp
  have d: "sent (fst (main_loop dumps_ref loads_ref ample [''exit'']
         ((start [] 2)\<lparr>console := console (start [] 2) @ [Prompt_method, Prompt_params, Notice_invalid_json]\<rparr>))) = []"
    by code_simp
  from invalid_params_send_nothing [where p = "''{bad''" and loads = loads_ref and m = "''list''"
      and dumps = dumps_ref and ins = "[''exit'']" and st = "start [] 2" and out = "[]" and k = 2 and room = ample]
    invalid_params_send_nothing [where p = "''{bad''" and loads = loads_ref and m = "''list''"
      and dumps = dumps_ref and ins = "[''list'', ''{bad'', ''exit'']" and st = "start [] 2"
      and out = "[]" and k = 2 and room = ample] a b c
  have e: "main_loop dumps_ref loads_ref ample [''list'', ''{bad'', ''exit''] (start [] 2) =
       main_loop dumps_ref loads_ref ample [''exit'']
         ((start [] 2)\<lparr>console := console (start [] 2) @ [Prompt_method, Prompt_params, Notice_invalid_json]\<rparr>)"
    and f: "stdin (proc (fst (main_loop dumps_ref loads_ref ample [''list'', ''{bad'', ''exit''] (start [] 2)))) =
       concat (map (encode dumps_ref)
         (sent (fst (main_loop dumps_ref loads_ref ample [''list'', ''{bad'', ''exit''] (start [] 2)))))"
    by blast+
  from e d have g: "sent (fst (main_loop dumps_ref loads_ref ample [''list'', ''{bad'', ''exit''] (start [] 2))) = []"
    by simp
  from f g have "stdin (proc (fst (main_loop dumps_ref loads_ref ample [''list'', ''{bad'', ''exit''] (start [] 2)))) = []"
    by simp
  with a b c e g show ?thesis by blast
qed

lemma main_loop_call_raises:
  assumes "lower (strip m) \<notin> {''exit'', ''quit''}"
    and "parse_params loads (strip p) = Some params"
    and "snd (snd (send_request dumps loads room (make_request (req_id st) (strip m) params) (proc st)))
           = Raises e"
  shows "main_loop dumps loads room (m # p # ins) st =
           (st\<lparr>req_id := req_id st + 1,
               sent := sent st @ [make_request (req_id st) (strip m) params],
               proc := fst (send_request dumps loads room
                              (make_request (req_id st) (strip m) params) (proc st)),
               console := console st @ [Prompt_method, Prompt_params]
                   @ fst (snd (send_request dumps loads room
                                 (make_request (req_id st) (strip m) params) (proc st)))\<rparr>,
            Crashed e)"
proof -
  let ?request = "make_request (req_id st) (strip m) params"
  obtain p' log res where sr: "send_request dumps loads room ?request (proc st) = (p', log, res)"
    by (cases "send_request dumps loads room ?request (proc st)") auto
  with assms show ?thesis by (simp add: Let_def)
qed

lemma main_loop_call_hangs:
  assumes "lower (strip m) \<notin> {''exit'', ''quit''}"
    and "parse_params loads (strip p) = Some params"
    and "snd (snd (send_request dumps loads room (make_request (req_id st) (strip m) params) (proc st)))
           = Hangs"
  shows "snd (main_loop dumps loads room (m # p # ins) st) = Hung"
proof -
  let ?request = "make_request (req_id st) (strip m) params"
  obtain p' log res where sr: "send_request dumps loads room ?request (proc st) = (p', log, res)"
    by (cases "send_request dumps loads room ?request (proc st)") auto
  with assms show ?thesis by (simp add: Let_def)
qed

lemma main_loop_call_returns:
  assumes "lower (strip m) \<notin> {''exit'', ''quit''}"
    and "parse_params loads (strip p) = Some params"
    and "snd (snd (send_request dumps loads room (make_request (req_id st) (strip m) params) (proc st)))
           = Returns resp"
  shows "main_loop dumps loads room (m # p # ins) st =
           main_loop dumps loads room ins
             (st\<lparr>req_id := req_id st + 1,
                 sent := sent st @ [make_request (req_id st) (strip m) params],
                 proc := fst (send_request dumps loads room
                                (make_request (req_id st) (strip m) params) (proc st)),
                 console := console st @ [Prompt_method, Prompt_params]
                     @ fst (snd (send_request dumps loads room
                                   (make_request (req_id st) (strip m) params) (proc st)))
                     @ [Print_response resp]\<rparr>)"
proof -
  let ?request = "make_request (req_id st) (strip m) params"
  obtain p' log res where sr: "send_request dumps loads room ?request (proc st) = (p', log, res)"
    by (cases "send_request dumps loads room ?request (proc st)") auto
  with assms show ?thesis by (simp add: Let_def)
qed

text \<open>
  Claim C7, as the code has it. Line 59 is outside the \<^verbatim>\<open>try\<close> of lines 50-54 and
  nothing else catches an exception. Take a pass of the loop whose method is not an
  exit word and whose parameters parse. If \<^verbatim>\<open>send_request\<close> raises, whatever the error,
  it ends the process: the request has been passed to \<^verbatim>\<open>send_request\<close>, nothing is
  printed after what \<^verbatim>\<open>send_request\<close> printed, and the rest of the user's input is never
  asked for. If \<^verbatim>\<open>send_request\<close> never returns, neither does the loop. Only when
  \<^verbatim>\<open>send_request\<close> returns a response does the loop print it and go on to the next
  prompt.
\<close>

theorem call_error_ends_session:
  assumes "lower (strip m) \<notin> {''exit'', ''quit''}"
    and "parse_params loads (strip p) = Some params"
  shows "(snd (snd (send_request dumps loads room (make_request (req_id st) (strip m) params) (proc st)))
            = Raises e \<longrightarrow>
          main_loop dumps loads room (m # p # ins) st =
              (st\<lparr>req_id := req_id st + 1,
                  sent := sent st @ [make_request (req_id st) (strip m) params],
                  proc := fst (send_request dumps loads room
                                 (make_request (req_id st) (strip m) params) (proc st)),
                  console := console st @ [Prompt_method, Prompt_params]
                      @ fst (snd (send_request dumps loads room
                                    (make_request (req_id st) (strip m) params) (proc st)))\<rparr>,
               Crashed e))
       \<and> (snd (snd (send_request dumps loads room (make_request (req_id st) (strip m) params) (proc st)))
            = Hangs \<longrightarrow>
          snd (main_loop dumps loads room (m # p # ins) st) = Hung)
       \<and> (snd (snd (send_request dumps loads room (make_request (req_id st) (strip m) params) (proc st)))
            = Returns resp \<longrightarrow>
          main_loop dumps loads room (m # p # ins) st =
            main_loop dumps loads room ins
              (st\<lparr>req_id := req_id st + 1,
                  sent := sent st @ [make_request (req_id st) (strip m) params],
                  proc := fst (send_request dumps loads room
                                 (make_request (req_id st) (strip m) params) (proc st)),
                  console := console st @ [Prompt_method, Prompt_params]
                      @ fst (snd (send_request dumps loads room
                                    (make_request (req_id st) (strip m) params) (proc st)))
                      @ [Print_response resp]\<rparr>))"
  using main_loop_call_raises [OF assms] main_loop_call_hangs [OF assms]
    main_loop_call_returns [OF assms]
  by blast

theorem call_error_ends_session_witness:
  "lower (strip ''ping'') \<notin> {''exit'', ''quit''}
   \<and> parse_params loads_ref (strip '''') = Some (JObject [])
   \<and> snd (snd (send_request dumps_ref loads_ref ample
        (make_request (req_id (start (''Content-Length: 1'' @ CRLF @ CRLF @ ''x'') 2)) (strip ''ping'')
           (JObject []))
        (proc (start (''Content-Length: 1'' @ CRLF @ CRLF @ ''x'') 2))))
       = Raises (JSONDecodeError ''x'')
   \<and> snd (main_loop dumps_ref loads_ref ample (''ping'' # '''' # [''ping'', ''''])
        (start (''Content-Length: 1'' @ CRLF @ CRLF @ ''x'') 2)) = Crashed (JSONDecodeError ''x'')
   \<and> snd (snd (send_request dumps_ref loads_ref ample
        (make_request (req_id (start [] 0)) (strip ''ping'') (JObject [])) (proc (start [] 0))))
       = Raises BrokenPipeError
   \<and> snd (main_loop dumps_ref loads_ref ample (''ping'' # '''' # [''ping'', ''''])
        (start [] 0)) = Crashed BrokenPipeError"
proof -
  have a: "lower (strip ''ping'') \<notin> {''exit'', ''quit''}" by code_simp
  have b: "parse_params loads_ref (strip '''') = Some (JObject [])" by code_simp
  have c: "snd (snd (send_request dumps_ref loads_ref ample
        (make_request (req_id (start (''Content-Length: 1'' @ CRLF @ CRLF @ ''x'') 2)) (strip ''ping'')
           (JObject []))
        (proc (start (''Content-Length: 1'' @ CRLF @ CRLF @ ''x'') 2))))
       = Raises (JSONDecodeError ''x'')"
    by code_simp
  note t = call_error_ends_session [OF a b, where dumps = dumps_ref
      and st = "start (''Content-Length: 1'' @ CRLF @ CRLF @ ''x'') 2"
      and e = "JSONDecodeError ''x''" and ins = "[''ping'', '''']" and room = ample]
  note eq = t [THEN conjunct1, THEN mp, OF c]
  have "snd (main_loop dumps_ref loads_ref ample (''ping'' # '''' # [''ping'', ''''])
        (start (''Content-Length: 1'' @ CRLF @ CRLF @ ''x'') 2)) = Crashed (JSONDecodeError ''x'')"
    by (subst eq) (rule snd_conv)
  note this_json = this
  have c': "snd (snd (send_request dumps_ref loads_ref ample
        (make_request (req_id (start [] 0)) (strip ''ping'') (JObject [])) (proc (start [] 0))))
       = Raises BrokenPipeError"
    by (simp add: send_request_def start_def Let_def)
  note t' = call_error_ends_session [OF a b, where dumps = dumps_ref and st = "start [] 0"
      and e = BrokenPipeError and ins = "[''ping'', '''']" and room = ample]
  note eq' = t' [THEN conjunct1, THEN mp, OF c']
  have "snd (main_loop dumps_ref loads_ref ample (''ping'' # '''' # [''ping'', ''''])
        (start [] 0)) = Crashed BrokenPipeError"
    by (subst eq') (rule snd_conv)
  with a b c c' this_json show ?thesis by (intro conjI)
qed

theorem call_error_counterexample:
  "snd (main_loop dumps_ref loads_ref ample [''ping'', '''', ''ping'', '''']
          (start (''Content-Length: 1'' @ CRLF @ CRLF @ ''x'') 2)) = Crashed (JSONDecodeError ''x'')
   \<and> console (fst (main_loop dumps_ref loads_ref ample [''ping'', '''', ''ping'', '''']
          (start (''Content-Length: 1'' @ CRLF @ CRLF @ ''x'') 2))) =
       [Banner, Prompt_method, Prompt_params, Got_line ''Content-Length: 1'', Got_line []]"
proof -
  let ?st = "start (''Content-Length: 1'' @ CRLF @ CRLF @ ''x'') 2"
  have a: "lower (strip ''ping'') \<notin> {''exit'', ''quit''}" by code_simp
  have b: "parse_params loads_ref (strip '''') = Some (JObject [])" by code_simp
  have c: "snd (snd (send_request dumps_ref loads_ref ample
             (make_request (req_id ?st) (strip ''ping'') (JObject [])) (proc ?st)))
           = Raises (JSONDecodeError ''x'')"
    by code_simp
  have d: "fst (snd (send_request dumps_ref loads_ref ample
             (make_request (req_id ?st) (strip ''ping'') (JObject [])) (proc ?st)))
           = [Got_line ''Content-Length: 1'', Got_line []]"
    by code_simp
  have k: "console ?st = [Banner]" by (simp add: start_def)
  note eq = main_loop_call_raises [OF a b c, of "[''ping'', '''']"]
  show ?thesis by (subst eq, subst eq) (use d k in simp)
qed

end
